theory Spec2Isabelle
  imports Main
begin

section \<open>The tracing plugin for gorm: data model\<close>

text \<open>
  The plugin (istio-gorm-tracing.go) registers a before-hook per operation kind and one
  shared after-hook. The before-hook reads the process-wide header value \<open>H\<close>, asks the
  B3 propagator for a span context, starts a span and stores it in the statement's
  instance settings under \<open>spankey\<close>; the after-hook fetches the stored value, logs the
  statement on the span and finishes it.

  Go pointers that may be nil are \<open>option\<close>s. A span is a mutable object shared between
  the tracer and the settings of a statement, so spans live in a store (\<open>heap\<close>, a list
  indexed by reference) and the settings hold references.
\<close>

text \<open>
  The carrier (\<open>http.Header\<close>): header names, in the lower case in which the propagator
  compares them, to values.
\<close>

type_synonym carrier = "string \<rightharpoonup> string"

text \<open>The decoded inbound context (spec section 3, TraceContext).\<close>

record trace_context =
  tc_trace_id :: nat
  tc_span_id :: nat
  tc_parent_id :: "nat option"
  tc_sampled :: "bool option"

text \<open>
  The fields handed to \<open>span.LogFields\<close>: \<open>opentracinglog.Error(err)\<close> and
  \<open>opentracinglog.String(key, value)\<close>.
\<close>

datatype log_field = ErrorField string | StringField string string

record span =
  span_id :: nat
  trace_id :: nat
  parent_span_id :: "nat option"
  operation_name :: string
  sampled :: bool
  start_time :: nat
  end_time :: "nat option"
  annotations :: "log_field list"
  finished :: bool

text \<open>
  A value of Go's \<open>interface{}\<close> as the settings of a statement hold it: the nil
  interface, a value that is an \<open>opentracing.Span\<close> and points to a span (a reference into
  the store), a value of a span type that holds a nil pointer, or a value of some other
  dynamic type. The before-hook only ever stores live spans; the other values are what
  other code may have put under the key.
\<close>

datatype any = Nil | SpanValue nat | NilSpanPointer | OtherValue string

text \<open>A run-time panic of the Go program.\<close>

datatype panic = NilPointerDereference

datatype sqlval = IntVal int | StrVal string

datatype go_context = Background

record statement =
  Context :: "go_context option"
  SQL :: string
  Vars :: "sqlval list"
  Table :: string
  Settings :: "string \<rightharpoonup> any"

text \<open>
  \<open>*gorm.DB\<close> as the hooks see it. \<open>Dialector\<close> stands for \<open>db.Dialector.Explain\<close>, which
  depends on the SQL dialect in use; \<open>Logger\<close> is what \<open>db.Logger.Error\<close> has written so
  far. A handle made by gorm always has a logger and a dialector, so neither is optional.
\<close>

record DB =
  Statement :: "statement option"
  Error :: "string option"
  RowsAffected :: int
  Dialector :: "string \<Rightarrow> sqlval list \<Rightarrow> string"
  Logger :: "string list"

text \<open>
  The state of the process outside the handle: the package variable \<open>H\<close>, the spans
  allocated so far, the clock, the tracer's identifier generator, the spans handed to
  the reporter, in the order of their \<open>Finish\<close> calls, and the panic a hook has raised,
  if any. A hook that panics does not return to its caller; the model gives the state in
  which the panic leaves the handle and the process, with the panic recorded in
  \<open>panicked\<close>.
\<close>

record world =
  H :: carrier
  heap :: "span list"
  now :: nat
  next_id :: nat
  reported :: "nat list"
  panicked :: "panic option"

definition spankey :: string where
  "spankey = ''istio-gorm-tracing''"

definition opCreate :: string where "opCreate = ''create''"
definition opUpdate :: string where "opUpdate = ''update''"
definition opQuery :: string where "opQuery = ''query''"
definition opDelete :: string where "opDelete = ''delete''"
definition opRow :: string where "opRow = ''row''"
definition opRaw :: string where "opRaw = ''raw''"

section \<open>The collaborators the hooks call\<close>

subsection \<open>gorm: logger and instance settings\<close>

text \<open>
  The diagnostic both hooks write when the statement or its context is nil. The source
  text is Chinese; the theory is ASCII, so the message is given in English.
\<close>

definition undefined_statement_msg :: string where
  "undefined_statement_msg = ''undefined db.Statement or db.Statement.Context''"

definition LoggerError :: "string \<Rightarrow> DB \<Rightarrow> DB" where
  "LoggerError msg db = db\<lparr>Logger := Logger db @ [msg]\<rparr>"

text \<open>
  Modelled from the spec: gorm's \<open>InstanceSet\<close> and \<open>InstanceGet\<close> are not in the
  repository. Section 4.3 has the span "stored against the operation-scoped context" and
  section 9 calls the store an untyped key/value store: a map from keys to \<open>any\<close> that
  belongs to the statement. \<open>InstanceGet\<close> returns the value and whether the key exists,
  which is the \<open>option\<close> of the lookup.
\<close>

definition InstanceSet :: "string \<Rightarrow> any \<Rightarrow> statement \<Rightarrow> statement" where
  "InstanceSet key v st = st\<lparr>Settings := (Settings st)(key \<mapsto> v)\<rparr>"

definition InstanceGet :: "string \<Rightarrow> statement \<Rightarrow> any option" where
  "InstanceGet key st = Settings st key"

subsection \<open>The B3 propagator\<close>

definition hex_digit :: "char \<Rightarrow> nat option" where
  "hex_digit c =
     (let n = (of_char c :: nat) in
      if 48 \<le> n \<and> n \<le> 57 then Some (n - 48)
      else if 97 \<le> n \<and> n \<le> 102 then Some (n - 87)
      else if 65 \<le> n \<and> n \<le> 70 then Some (n - 55)
      else None)"

fun parse_hex_from :: "nat \<Rightarrow> string \<Rightarrow> nat option" where
  "parse_hex_from acc [] = Some acc"
| "parse_hex_from acc (c # cs) =
     (case hex_digit c of
        None \<Rightarrow> None
      | Some d \<Rightarrow> parse_hex_from (16 * acc + d) cs)"

definition parse_hex :: "string \<Rightarrow> nat option" where
  "parse_hex s = (if s = [] then None else parse_hex_from 0 s)"

definition parse_flag :: "string \<Rightarrow> bool option" where
  "parse_flag s =
     (if s = ''1'' \<or> s = ''true'' then Some True
      else if s = ''0'' \<or> s = ''false'' then Some False
      else None)"

datatype extract_error = SpanContextNotFound | SpanContextCorrupted

text \<open>
  Modelled from the spec: \<open>zipkin.NewZipkinB3HTTPHeaderPropagator().Extract\<close> is not in
  the repository. Section 4.1: extract reads the fixed keys of the carrier (trace id,
  parent span id, span id, sampled flag; the comment on \<open>H\<close> in the source names the
  headers) and yields a trace context or the empty result; a malformed or partially
  present carrier gives the empty result. The trace id and the span id are required; the
  parent span id and the sampled flag are optional (the scenario of section 8 has a
  carrier without a parent span id), and malformed when present and unreadable. Like the
  Go function, \<open>Extract\<close> returns a pair: the context, empty on failure, and the error.
\<close>

definition inbound_trace_id :: "carrier \<Rightarrow> nat option" where
  "inbound_trace_id c = Option.bind (c ''x-b3-traceid'') parse_hex"

definition inbound_span_id :: "carrier \<Rightarrow> nat option" where
  "inbound_span_id c = Option.bind (c ''x-b3-spanid'') parse_hex"

definition optional_field :: "(string \<Rightarrow> 'a option) \<Rightarrow> string option \<Rightarrow> 'a option option" where
  "optional_field parse v =
     (case v of
        None \<Rightarrow> Some None
      | Some s \<Rightarrow> (case parse s of None \<Rightarrow> None | Some x \<Rightarrow> Some (Some x)))"

definition decode_b3 :: "carrier \<Rightarrow> trace_context option" where
  "decode_b3 c =
     (case inbound_trace_id c of
        None \<Rightarrow> None
      | Some tid \<Rightarrow>
          (case inbound_span_id c of
             None \<Rightarrow> None
           | Some sid \<Rightarrow>
               (case optional_field parse_hex (c ''x-b3-parentspanid'') of
                  None \<Rightarrow> None
                | Some pid \<Rightarrow>
                    (case optional_field parse_flag (c ''x-b3-sampled'') of
                       None \<Rightarrow> None
                     | Some flag \<Rightarrow>
                         Some \<lparr>tc_trace_id = tid, tc_span_id = sid, tc_parent_id = pid,
                               tc_sampled = flag\<rparr>))))"

definition Extract :: "carrier \<Rightarrow> trace_context option \<times> extract_error option" where
  "Extract c =
     (case decode_b3 c of
        Some tc \<Rightarrow> (Some tc, None)
      | None \<Rightarrow>
          (None,
           Some (if c ''x-b3-traceid'' = None \<or> c ''x-b3-spanid'' = None
                 then SpanContextNotFound else SpanContextCorrupted)))"

text \<open>
  The carriers of the properties below, in the spec's words: a carrier holds a present,
  well-formed trace context when the trace id and the span id are there and are
  hexadecimal numbers, and the optional fields, where present, are readable too. Every
  other carrier is malformed, partially present or absent.
\<close>

definition hex_string :: "string \<Rightarrow> bool" where
  "hex_string s = (s \<noteq> [] \<and> list_all (\<lambda>ch. hex_digit ch \<noteq> None) s)"

definition b3_well_formed :: "carrier \<Rightarrow> bool" where
  "b3_well_formed c =
     ((case c ''x-b3-traceid'' of None \<Rightarrow> False | Some t \<Rightarrow> hex_string t) \<and>
      (case c ''x-b3-spanid'' of None \<Rightarrow> False | Some s \<Rightarrow> hex_string s) \<and>
      (case c ''x-b3-parentspanid'' of None \<Rightarrow> True | Some p \<Rightarrow> hex_string p) \<and>
      (case c ''x-b3-sampled'' of
         None \<Rightarrow> True
       | Some f \<Rightarrow> f = ''1'' \<or> f = ''true'' \<or> f = ''0'' \<or> f = ''false''))"

subsection \<open>The tracer: starting, annotating and finishing spans\<close>

text \<open>
  Modelled from the spec: \<open>opentracing.StartSpanFromContext\<close> with the option
  \<open>opentracing.ChildOf\<close> is not in the repository. Section 4.2: with a parent context the
  new span takes the parent's trace identifier and has the parent's span id as its
  parent-span-id; with none, a new trace identifier is generated and the span is a root.
  The span gets a fresh identifier and the current time as its start time; the sampling
  decision is the context's flag when it has one and the local policy otherwise (the
  plugin configures a constant sampler with parameter 1: sample everything). Identifiers
  come from a counter, which makes them fresh. The function returns the reference of the
  new span.
\<close>

definition StartSpanFromContext ::
    "go_context \<Rightarrow> string \<Rightarrow> trace_context option \<Rightarrow> world \<Rightarrow> nat \<times> world" where
  "StartSpanFromContext ctx op parent w =
     (case parent of
        Some tc \<Rightarrow>
          (length (heap w),
           w\<lparr>heap := heap w @
                [\<lparr>span_id = next_id w, trace_id = tc_trace_id tc,
                  parent_span_id = Some (tc_span_id tc), operation_name = op,
                  sampled = (case tc_sampled tc of Some b \<Rightarrow> b | None \<Rightarrow> True),
                  start_time = now w, end_time = None, annotations = [],
                  finished = False\<rparr>],
             next_id := next_id w + 1\<rparr>)
      | None \<Rightarrow>
          (length (heap w),
           w\<lparr>heap := heap w @
                [\<lparr>span_id = next_id w + 1, trace_id = next_id w,
                  parent_span_id = None, operation_name = op,
                  sampled = True,
                  start_time = now w, end_time = None, annotations = [],
                  finished = False\<rparr>],
             next_id := next_id w + 2\<rparr>))"

text \<open>
  Modelled from the spec: \<open>span.LogFields\<close> and \<open>span.Finish\<close> are not in the
  repository. Section 3: a span carries key/value annotations, an end time set on
  completion and a finished flag; section 4.3: finishing sets the end time, marks the
  span finished and hands it to the reporter. A reference always points into the store
  (Go has no dangling references); on any other number the functions change nothing.
\<close>

definition update_span :: "nat \<Rightarrow> (span \<Rightarrow> span) \<Rightarrow> world \<Rightarrow> world" where
  "update_span r f w =
     (if r < length (heap w) then w\<lparr>heap := (heap w)[r := f (heap w ! r)]\<rparr> else w)"

definition LogFields :: "nat \<Rightarrow> log_field \<Rightarrow> world \<Rightarrow> world" where
  "LogFields r fld w = update_span r (\<lambda>s. s\<lparr>annotations := annotations s @ [fld]\<rparr>) w"

definition Finish :: "nat \<Rightarrow> world \<Rightarrow> world" where
  "Finish r w =
     (if r < length (heap w)
      then (update_span r (\<lambda>s. s\<lparr>end_time := Some (now w), finished := True\<rparr>) w)
             \<lparr>reported := reported w @ [r]\<rparr>
      else w)"

section \<open>The hooks\<close>

text \<open>
  \<open>_injectBefore(db, op)\<close>. The error of \<open>Extract\<close> and the context returned by
  \<open>StartSpanFromContext\<close> are discarded, as in the source.
\<close>

definition injectBefore :: "DB option \<Rightarrow> string \<Rightarrow> world \<Rightarrow> DB option \<times> world" where
  "injectBefore dbp op w =
     (case dbp of
        None \<Rightarrow> (None, w)
      | Some db \<Rightarrow>
          (case Statement db of
             None \<Rightarrow> (Some (LoggerError undefined_statement_msg db), w)
           | Some st \<Rightarrow>
               (case Context st of
                  None \<Rightarrow> (Some (LoggerError undefined_statement_msg db), w)
                | Some ctx \<Rightarrow>
                    (let spanCtx = fst (Extract (H w));
                         (sp, w') = StartSpanFromContext ctx op spanCtx w
                     in (Some (db\<lparr>Statement := Some (InstanceSet spankey (SpanValue sp) st)\<rparr>),
                         w')))))"

text \<open>
  \<open>after(db)\<close>. The deferred \<open>span.Finish()\<close> runs when the function returns, after the
  five \<open>LogFields\<close> calls. A span value that holds a nil pointer is not the nil
  interface, passes the type assertion and is not equal to nil afterwards, so the hook
  goes on: the first \<open>LogFields\<close> call on it panics, and so does the deferred \<open>Finish\<close>,
  before anything has been logged or reported.
\<close>

definition after :: "DB option \<Rightarrow> world \<Rightarrow> DB option \<times> world" where
  "after dbp w =
     (case dbp of
        None \<Rightarrow> (None, w)
      | Some db \<Rightarrow>
          (case Statement db of
             None \<Rightarrow> (Some (LoggerError undefined_statement_msg db), w)
           | Some st \<Rightarrow>
               (case Context st of
                  None \<Rightarrow> (Some (LoggerError undefined_statement_msg db), w)
                | Some ctx \<Rightarrow>
                    (case InstanceGet spankey st of
                       None \<Rightarrow> (Some db, w)
                     | Some Nil \<Rightarrow> (Some db, w)
                     | Some (OtherValue x) \<Rightarrow> (Some db, w)
                     | Some NilSpanPointer \<Rightarrow>
                         (Some db, w\<lparr>panicked := Some NilPointerDereference\<rparr>)
                     | Some (SpanValue sp) \<Rightarrow>
                         (let w1 = (case Error db of
                                      None \<Rightarrow> w
                                    | Some e \<Rightarrow> LogFields sp (ErrorField e) w);
                              w2 = LogFields sp
                                     (StringField ''sql'' (Dialector db (SQL st) (Vars st))) w1;
                              w3 = LogFields sp (StringField ''table'' (Table st)) w2;
                              w4 = LogFields sp (StringField ''query'' (SQL st)) w3;
                              w5 = LogFields sp (StringField ''bindings'' (SQL st)) w4
                          in (Some db, Finish sp w5))))))"

definition beforeCreate :: "DB option \<Rightarrow> world \<Rightarrow> DB option \<times> world" where
  "beforeCreate db = injectBefore db opCreate"

definition beforeUpdate :: "DB option \<Rightarrow> world \<Rightarrow> DB option \<times> world" where
  "beforeUpdate db = injectBefore db opUpdate"

definition beforeQuery :: "DB option \<Rightarrow> world \<Rightarrow> DB option \<times> world" where
  "beforeQuery db = injectBefore db opQuery"

definition beforeDelete :: "DB option \<Rightarrow> world \<Rightarrow> DB option \<times> world" where
  "beforeDelete db = injectBefore db opDelete"

definition beforeRow :: "DB option \<Rightarrow> world \<Rightarrow> DB option \<times> world" where
  "beforeRow db = injectBefore db opRow"

definition beforeRaw :: "DB option \<Rightarrow> world \<Rightarrow> DB option \<times> world" where
  "beforeRaw db = injectBefore db opRaw"

text \<open>
  The span an operation holds: the value under \<open>spankey\<close> in the settings of its
  statement, looked up in the store.
\<close>

definition stored_ref :: "DB option \<Rightarrow> nat option" where
  "stored_ref dbp =
     (case dbp of
        None \<Rightarrow> None
      | Some db \<Rightarrow>
          (case Statement db of
             None \<Rightarrow> None
           | Some st \<Rightarrow>
               (case InstanceGet spankey st of
                  Some (SpanValue r) \<Rightarrow> Some r
                | _ \<Rightarrow> None)))"

definition stored_span :: "DB option \<Rightarrow> world \<Rightarrow> span option" where
  "stored_span dbp w =
     (case stored_ref dbp of
        None \<Rightarrow> None
      | Some r \<Rightarrow> (if r < length (heap w) then Some (heap w ! r) else None))"

section \<open>Initialization\<close>

record IstioGormTracing =
  ServiceName :: string
  CollectorEndpoint :: string

text \<open>
  The \<open>config.Configuration\<close> literal that \<open>bootTracerBasedJaeger\<close> builds: a constant
  sampler with parameter 1, the service name, and a reporter that logs spans and sends
  them to the collector endpoint.
\<close>

record configuration =
  SamplerType :: string
  SamplerParam :: nat
  ConfigServiceName :: string
  ReporterLogSpans :: bool
  ReporterCollectorEndpoint :: string

text \<open>
  The process as initialization sees it: what \<open>log.Printf\<close> has written, and the global
  tracer of the opentracing package (unset until \<open>SetGlobalTracer\<close>).
\<close>

record 't process =
  log_output :: "string list"
  GlobalTracer :: "'t option"

text \<open>
  The message of \<open>log.Printf\<close> on a failed initialization, with the error formatted in.
  The source text is Chinese; it is given in English here.
\<close>

definition boot_failure_msg :: "string \<Rightarrow> string" where
  "boot_failure_msg err = ''jaeger tracer plugin initialization failed, reason: '' @ err"

text \<open>
  \<open>bootTracerBasedJaeger\<close>. \<open>NewTracer\<close> belongs to the jaeger client and is a parameter:
  it yields the error (\<open>Inl\<close>) or the tracer. The first component of the result is the
  exit code when \<open>os.Exit\<close> ended the process, and \<open>None\<close> when the function returned.
\<close>

definition bootTracerBasedJaeger ::
    "(configuration \<Rightarrow> string + 't) \<Rightarrow> IstioGormTracing \<Rightarrow> 't process \<Rightarrow> int option \<times> 't process" where
  "bootTracerBasedJaeger NewTracer i p =
     (case NewTracer \<lparr>SamplerType = ''const'', SamplerParam = 1,
                       ConfigServiceName = ServiceName i, ReporterLogSpans = True,
                       ReporterCollectorEndpoint = CollectorEndpoint i\<rparr> of
        Inl err \<Rightarrow> (Some 1, p\<lparr>log_output := log_output p @ [boot_failure_msg err]\<rparr>)
      | Inr tracer \<Rightarrow> (None, p\<lparr>GlobalTracer := Some tracer\<rparr>))"

text \<open>
  \<open>NewDefault\<close>: the plugin value is returned only when the process is still running
  (\<open>Inr\<close>); \<open>Inl\<close> carries the exit code.
\<close>

definition NewDefault ::
    "(configuration \<Rightarrow> string + 't) \<Rightarrow> string \<Rightarrow> string \<Rightarrow> 't process
       \<Rightarrow> (int + IstioGormTracing) \<times> 't process" where
  "NewDefault NewTracer svcName collectorEndpoint p =
     (let i = \<lparr>ServiceName = svcName, CollectorEndpoint = collectorEndpoint\<rparr>;
          (exited, p') = bootTracerBasedJaeger NewTracer i p
      in (case exited of
            Some code \<Rightarrow> (Inl code, p')
          | None \<Rightarrow> (Inr i, p')))"

text \<open>
  The fields the after-hook logs on the stored span, in the order of its \<open>LogFields\<close>
  calls: the error when the handle has one, then \<open>sql\<close>, \<open>table\<close>, \<open>query\<close> and
  \<open>bindings\<close>.
\<close>

definition logged_fields :: "DB \<Rightarrow> statement \<Rightarrow> log_field list" where
  "logged_fields db st =
     (case Error db of None \<Rightarrow> [] | Some e \<Rightarrow> [ErrorField e]) @
     [StringField ''sql'' (Dialector db (SQL st) (Vars st)),
      StringField ''table'' (Table st),
      StringField ''query'' (SQL st),
      StringField ''bindings'' (SQL st)]"

section \<open>Scenario data\<close>

text \<open>
  The data of the scenarios of section 8 of the spec: a carrier with trace id \<open>1a2b\<close>,
  span id \<open>00ff\<close> and the sampled flag, a query on table \<open>users\<close>, and a create that
  fails with "duplicate key". \<open>explain_inline\<close> is a small dialect for them: it appends
  the bound values to the statement text.
\<close>

definition explain_inline :: "string \<Rightarrow> sqlval list \<Rightarrow> string" where
  "explain_inline sql vars =
     sql @ concat (map (\<lambda>v. case v of StrVal x \<Rightarrow> '' ['' @ x @ '']'' | IntVal i \<Rightarrow> '' [int]'') vars)"

definition query_carrier :: carrier where
  "query_carrier =
     [''x-b3-traceid'' \<mapsto> ''1a2b'', ''x-b3-spanid'' \<mapsto> ''00ff'', ''x-b3-sampled'' \<mapsto> ''1'']"

definition users_statement :: statement where
  "users_statement =
     \<lparr>Context = Some Background, SQL = ''SELECT * FROM users WHERE name = ?'',
      Vars = [StrVal ''xiaoming''], Table = ''users'', Settings = Map.empty\<rparr>"

definition users_db :: DB where
  "users_db =
     \<lparr>Statement = Some users_statement, Error = None, RowsAffected = 0,
      Dialector = explain_inline, Logger = []\<rparr>"

definition world_with :: "carrier \<Rightarrow> world" where
  "world_with c =
     \<lparr>H = c, heap = [], now = 100, next_id = 7, reported = [], panicked = None\<rparr>"

text \<open>
  The handle and the process state after the before-hook of the query scenario, and a
  handle whose create failed while it holds the open root span \<open>open_span\<close>.
\<close>

definition bound_db :: DB where
  "bound_db = users_db\<lparr>Statement := Some (InstanceSet spankey (SpanValue 0) users_statement)\<rparr>"

definition world_started :: world where
  "world_started = snd (injectBefore (Some users_db) opQuery (world_with query_carrier))"

definition open_span :: span where
  "open_span =
     \<lparr>span_id = 8, trace_id = 7, parent_span_id = None, operation_name = ''create'',
      sampled = True, start_time = 100, end_time = None, annotations = [], finished = False\<rparr>"

definition world_bound :: world where
  "world_bound =
     \<lparr>H = Map.empty, heap = [open_span], now = 130, next_id = 9, reported = [],
      panicked = None\<rparr>"

definition failed_db :: DB where
  "failed_db =
     \<lparr>Statement = Some (InstanceSet spankey (SpanValue 0) users_statement),
      Error = Some ''duplicate key'', RowsAffected = 0,
      Dialector = explain_inline, Logger = []\<rparr>"

text \<open>
  A handle whose statement has no context and nothing stored, and a handle whose
  statement holds a nil span pointer under the span key.
\<close>

definition unbound_db :: DB where
  "unbound_db = users_db\<lparr>Statement := Some (users_statement\<lparr>Context := None\<rparr>)\<rparr>"

definition nil_span_db :: DB where
  "nil_span_db = users_db\<lparr>Statement := Some (InstanceSet spankey NilSpanPointer users_statement)\<rparr>"

text \<open>A handle without a statement, and a tracer constructor that needs an endpoint.\<close>

definition detached_db :: DB where
  "detached_db =
     \<lparr>Statement = None, Error = None, RowsAffected = 0, Dialector = explain_inline, Logger = []\<rparr>"

definition tracer_needs_endpoint :: "configuration \<Rightarrow> string + nat" where
  "tracer_needs_endpoint c =
     (if ReporterCollectorEndpoint c = [] then Inl ''no collector endpoint'' else Inr 0)"

section \<open>Operations in flight at the same time\<close>

text \<open>
  The host runs operations from concurrent request handlers. Each operation in flight has
  a handle of its own (gorm gives every operation its own statement, and the settings
  belong to the statement); the header value \<open>H\<close>, the spans, the clock and the tracer
  are shared by the whole process. An execution is an interleaving of events, each of them
  atomic:
  \<^item> \<open>SetH i c\<close>: the handler of the request that issues operation \<open>i\<close> assigns its
    headers to \<open>H\<close>, as the README has every handler do before it uses the database;
  \<^item> \<open>Before i op\<close> and \<open>After i\<close>: the hooks of operation \<open>i\<close>;
  \<^item> \<open>Host i sql vars err rows\<close>: the host's own work on operation \<open>i\<close> between the hooks;
  \<^item> \<open>Tick d\<close>: time passes.

  A hook that panics is recorded in the process state like any other call; an execution
  that ends at a panic is a prefix of an event list.
\<close>

record system =
  sys_world :: world
  sys_ops :: "DB list"

datatype event =
    SetH nat carrier
  | Before nat string
  | Host nat string "sqlval list" "string option" int
  | Tick nat
  | After nat

text \<open>
  Modelled from the spec: the host's own callbacks (\<open>gorm:create\<close>, \<open>gorm:query\<close>, ...) are
  not in the repository. Section 6: between the hooks the host fills in the rendered SQL
  and the bound parameters of the operation and sets its outcome; it leaves the context
  and the settings of the statement alone.
\<close>

definition host_execute :: "string \<Rightarrow> sqlval list \<Rightarrow> string option \<Rightarrow> int \<Rightarrow> DB \<Rightarrow> DB" where
  "host_execute sql vars err rows db =
     db\<lparr>Statement := map_option (\<lambda>st. st\<lparr>SQL := sql, Vars := vars\<rparr>) (Statement db),
        Error := err, RowsAffected := rows\<rparr>"

definition run_hook :: "(DB option \<Rightarrow> world \<Rightarrow> DB option \<times> world) \<Rightarrow> nat \<Rightarrow> system \<Rightarrow> system" where
  "run_hook hook i s =
     (if i < length (sys_ops s)
      then (case hook (Some (sys_ops s ! i)) (sys_world s) of
              (Some db', w') \<Rightarrow> \<lparr>sys_world = w', sys_ops = (sys_ops s)[i := db']\<rparr>
            | (None, w') \<Rightarrow> \<lparr>sys_world = w', sys_ops = sys_ops s\<rparr>)
      else s)"

fun step :: "event \<Rightarrow> system \<Rightarrow> system" where
  "step (SetH i c) s = s\<lparr>sys_world := (sys_world s)\<lparr>H := c\<rparr>\<rparr>"
| "step (Before i op) s = run_hook (\<lambda>db. injectBefore db op) i s"
| "step (Host i sql vars err rows) s =
     (if i < length (sys_ops s)
      then s\<lparr>sys_ops := (sys_ops s)[i := host_execute sql vars err rows (sys_ops s ! i)]\<rparr>
      else s)"
| "step (Tick d) s = s\<lparr>sys_world := (sys_world s)\<lparr>now := now (sys_world s) + d\<rparr>\<rparr>"
| "step (After i) s = run_hook after i s"

definition run :: "event list \<Rightarrow> system \<Rightarrow> system" where
  "run es s = fold step es s"

text \<open>
  The events of operation \<open>i\<close> itself: its own hooks and host work, the assignments to
  \<open>H\<close> by its own request, and the passing of time.
\<close>

fun concerns :: "nat \<Rightarrow> event \<Rightarrow> bool" where
  "concerns i (SetH j c) = (j = i)"
| "concerns i (Before j op) = (j = i)"
| "concerns i (Host j sql vars err rows) = (j = i)"
| "concerns i (Tick d) = True"
| "concerns i (After j) = (j = i)"

text \<open>
  What an operation's span says about the operation (name, annotations, times, finished
  flag), and its parent linkage (trace identifier and parent-span-id).
\<close>

definition handle_report :: "DB \<Rightarrow> world \<Rightarrow> (string \<times> log_field list \<times> nat \<times> nat option \<times> bool) option" where
  "handle_report db w =
     map_option (\<lambda>sp. (operation_name sp, annotations sp, start_time sp, end_time sp, finished sp))
       (stored_span (Some db) w)"

definition span_report :: "nat \<Rightarrow> system \<Rightarrow> (string \<times> log_field list \<times> nat \<times> nat option \<times> bool) option" where
  "span_report i s =
     (if i < length (sys_ops s) then handle_report (sys_ops s ! i) (sys_world s) else None)"

definition span_linkage :: "nat \<Rightarrow> system \<Rightarrow> (nat \<times> nat option) option" where
  "span_linkage i s =
     (if i < length (sys_ops s)
      then map_option (\<lambda>sp. (trace_id sp, parent_span_id sp))
             (stored_span (Some (sys_ops s ! i)) (sys_world s))
      else None)"

text \<open>
  Notions for the proofs. Two handles are the same for the hooks when they agree on
  everything the hooks read, except for which span the settings refer to. In a state that
  is \<open>refs_ok\<close>, every stored reference points into the store and no two operations hold
  the same span. An operation that has not started holds no span (\<open>idle\<close>).
\<close>

definition has_context :: "DB \<Rightarrow> bool" where
  "has_context db = (case Statement db of None \<Rightarrow> False | Some st \<Rightarrow> Context st \<noteq> None)"

definition handle_fields :: "DB \<Rightarrow> log_field list" where
  "handle_fields db = (case Statement db of None \<Rightarrow> [] | Some st \<Rightarrow> logged_fields db st)"

definition span_blind :: "any option \<Rightarrow> any option" where
  "span_blind v = map_option (\<lambda>x. case x of SpanValue r \<Rightarrow> SpanValue 0 | _ \<Rightarrow> x) v"

definition same_statement :: "statement \<Rightarrow> statement \<Rightarrow> bool" where
  "same_statement a b =
     (Context a = Context b \<and> SQL a = SQL b \<and> Vars a = Vars b \<and> Table a = Table b \<and>
      span_blind (InstanceGet spankey a) = span_blind (InstanceGet spankey b))"

definition same_handle :: "DB \<Rightarrow> DB \<Rightarrow> bool" where
  "same_handle a b =
     (Error a = Error b \<and> Dialector a = Dialector b \<and>
      rel_option same_statement (Statement a) (Statement b))"

definition refs_ok :: "system \<Rightarrow> bool" where
  "refs_ok s =
     (\<forall>i<length (sys_ops s).
        case stored_ref (Some (sys_ops s ! i)) of
          None \<Rightarrow> True
        | Some r \<Rightarrow>
            r < length (heap (sys_world s)) \<and>
            (\<forall>j<length (sys_ops s). j \<noteq> i \<longrightarrow> stored_ref (Some (sys_ops s ! j)) \<noteq> Some r))"

definition idle :: "system \<Rightarrow> bool" where
  "idle s = list_all (\<lambda>db. stored_ref (Some db) = None) (sys_ops s)"

definition related :: "nat \<Rightarrow> system \<Rightarrow> system \<Rightarrow> bool" where
  "related i s t =
     (length (sys_ops s) = length (sys_ops t) \<and>
      now (sys_world s) = now (sys_world t) \<and>
      refs_ok s \<and> refs_ok t \<and>
      (i < length (sys_ops s) \<longrightarrow>
         same_handle (sys_ops s ! i) (sys_ops t ! i) \<and> span_report i s = span_report i t))"

text \<open>
  Two requests in one process: the query of the first scenario, and a create on table
  \<open>orders\<close> whose request carries trace id \<open>b2\<close> and span id \<open>0c\<close>. In \<open>interleaved\<close> both
  handlers assign \<open>H\<close> before either hook runs.
\<close>

definition orders_carrier :: carrier where
  "orders_carrier = [''x-b3-traceid'' \<mapsto> ''b2'', ''x-b3-spanid'' \<mapsto> ''0c'']"

definition orders_db :: DB where
  "orders_db =
     \<lparr>Statement = Some \<lparr>Context = Some Background, SQL = ''INSERT INTO orders (id) VALUES (?)'',
                         Vars = [IntVal 1], Table = ''orders'', Settings = Map.empty\<rparr>,
      Error = None, RowsAffected = 0, Dialector = explain_inline, Logger = []\<rparr>"

definition two_requests :: system where
  "two_requests = \<lparr>sys_world = world_with Map.empty, sys_ops = [users_db, orders_db]\<rparr>"

definition interleaved :: "event list" where
  "interleaved =
     [SetH 0 query_carrier, SetH 1 orders_carrier, Before 0 ''query'', Before 1 ''create'',
      Host 1 ''INSERT INTO orders (id) VALUES (?)'' [IntVal 1] (Some ''duplicate key'') 0,
      After 1, Tick 30, After 0]"

section \<open>Facts about the propagator and the tracer\<close>

lemma parse_hex_from_None:
  "(parse_hex_from acc s = None) = (\<not> list_all (\<lambda>ch. hex_digit ch \<noteq> None) s)"
  by (induction s arbitrary: acc) (auto split: option.splits)

lemma parse_hex_None: "(parse_hex s = None) = (\<not> hex_string s)"
  by (simp add: parse_hex_def hex_string_def parse_hex_from_None del: not_None_eq)

lemma parse_flag_None:
  "(parse_flag f = None) = (\<not> (f = ''1'' \<or> f = ''true'' \<or> f = ''0'' \<or> f = ''false''))"
  by (simp add: parse_flag_def)

lemma required_id_None:
  "(Option.bind v parse_hex = None) = (\<not> (case v of None \<Rightarrow> False | Some t \<Rightarrow> hex_string t))"
  by (cases v) (simp_all add: parse_hex_None)

lemma optional_id_None:
  "(optional_field parse_hex v = None) = (\<not> (case v of None \<Rightarrow> True | Some p \<Rightarrow> hex_string p))"
  by (cases v) (simp_all add: optional_field_def parse_hex_None[symmetric] split: option.splits)

lemma optional_flag_None:
  "(optional_field parse_flag v = None) =
     (\<not> (case v of None \<Rightarrow> True
           | Some f \<Rightarrow> f = ''1'' \<or> f = ''true'' \<or> f = ''0'' \<or> f = ''false''))"
  by (cases v) (auto simp: optional_field_def parse_flag_def split: option.splits if_splits)

lemma decode_b3_None: "(decode_b3 c = None) = (\<not> b3_well_formed c)"
proof -
  have "(decode_b3 c = None) =
        (inbound_trace_id c = None \<or> inbound_span_id c = None \<or>
         optional_field parse_hex (c ''x-b3-parentspanid'') = None \<or>
         optional_field parse_flag (c ''x-b3-sampled'') = None)"
    by (simp add: decode_b3_def split: option.splits)
  then show ?thesis
    unfolding inbound_trace_id_def inbound_span_id_def required_id_None optional_id_None
      optional_flag_None b3_well_formed_def
    by blast
qed

lemma Extract_None: "(fst (Extract c) = None) = (\<not> b3_well_formed c)"
  by (simp add: Extract_def decode_b3_None[symmetric] split: option.splits)

lemma Extract_Some:
  "fst (Extract c) = Some tc \<Longrightarrow>
     inbound_trace_id c = Some (tc_trace_id tc) \<and> inbound_span_id c = Some (tc_span_id tc)"
  by (auto simp: Extract_def decode_b3_def split: option.splits)

lemma StartSpan_ref: "fst (StartSpanFromContext ctx op parent w) = length (heap w)"
  by (simp add: StartSpanFromContext_def split: option.splits)

lemma StartSpan_length:
  "length (heap (snd (StartSpanFromContext ctx op parent w))) = Suc (length (heap w))"
  by (simp add: StartSpanFromContext_def split: option.splits)

lemma StartSpan_heap_child:
  "heap (snd (StartSpanFromContext ctx op (Some tc) w)) ! length (heap w) =
     \<lparr>span_id = next_id w, trace_id = tc_trace_id tc,
      parent_span_id = Some (tc_span_id tc), operation_name = op,
      sampled = (case tc_sampled tc of Some b \<Rightarrow> b | None \<Rightarrow> True),
      start_time = now w, end_time = None, annotations = [], finished = False\<rparr>"
  by (simp add: StartSpanFromContext_def)

lemma StartSpan_heap_root:
  "heap (snd (StartSpanFromContext ctx op None w)) ! length (heap w) =
     \<lparr>span_id = next_id w + 1, trace_id = next_id w,
      parent_span_id = None, operation_name = op, sampled = True,
      start_time = now w, end_time = None, annotations = [], finished = False\<rparr>"
  by (simp add: StartSpanFromContext_def)

lemma StartSpan_frame:
  "H (snd (StartSpanFromContext ctx op parent w)) = H w"
  "now (snd (StartSpanFromContext ctx op parent w)) = now w"
  "reported (snd (StartSpanFromContext ctx op parent w)) = reported w"
  by (simp_all add: StartSpanFromContext_def split: option.splits)

lemma LogFields_heap:
  "r < length (heap w) \<Longrightarrow>
     LogFields r fld w = w\<lparr>heap := (heap w)[r := (heap w ! r)\<lparr>annotations := annotations (heap w ! r) @ [fld]\<rparr>]\<rparr>"
  by (simp add: LogFields_def update_span_def)

section \<open>What each hook does\<close>

text \<open>
  With a statement and a context, the before-hook stores the reference of the span it
  started; with a valid stored span, the after-hook appends the logged fields to that
  span, finishes it and changes nothing else.
\<close>

lemma injectBefore_bound:
  assumes "Statement db = Some st" and "Context st = Some ctx"
  shows "injectBefore (Some db) op w =
           (Some (db\<lparr>Statement := Some (InstanceSet spankey (SpanValue (length (heap w))) st)\<rparr>),
            snd (StartSpanFromContext ctx op (fst (Extract (H w))) w))"
  using assms StartSpan_ref[of ctx op "fst (Extract (H w))" w]
  by (cases "StartSpanFromContext ctx op (fst (Extract (H w))) w") (simp add: injectBefore_def)

lemma stored_ref_InstanceSet:
  "stored_ref (Some (db\<lparr>Statement := Some (InstanceSet spankey (SpanValue r) st)\<rparr>)) = Some r"
  by (simp add: stored_ref_def InstanceSet_def InstanceGet_def)

lemma after_bound:
  assumes "Statement db = Some st" and "Context st = Some ctx"
    and "InstanceGet spankey st = Some (SpanValue r)" and "r < length (heap w)"
  shows "after (Some db) w =
           (Some db,
            w\<lparr>heap := (heap w)[r := (heap w ! r)
                 \<lparr>annotations := annotations (heap w ! r) @ logged_fields db st,
                  end_time := Some (now w), finished := True\<rparr>],
              reported := reported w @ [r]\<rparr>)"
  using assms
  by (cases "Error db")
     (simp_all add: after_def LogFields_heap Finish_def update_span_def logged_fields_def Let_def)

lemma before_preserves_outcome:
  "map_option Error (fst (injectBefore dbp op w)) = map_option Error dbp \<and>
   map_option RowsAffected (fst (injectBefore dbp op w)) = map_option RowsAffected dbp"
proof (cases dbp)
  case None
  then show ?thesis by (simp add: injectBefore_def)
next
  case (Some db)
  show ?thesis
  proof (cases "Statement db")
    case None
    with Some show ?thesis by (simp add: injectBefore_def LoggerError_def)
  next
    case st: (Some st)
    show ?thesis
    proof (cases "Context st")
      case None
      with Some st show ?thesis by (simp add: injectBefore_def LoggerError_def)
    next
      case (Some ctx)
      with \<open>dbp = Some db\<close> st show ?thesis by (simp add: injectBefore_bound)
    qed
  qed
qed

lemma after_preserves_outcome:
  "map_option Error (fst (after dbp w)) = map_option Error dbp \<and>
   map_option RowsAffected (fst (after dbp w)) = map_option RowsAffected dbp"
  by (simp add: after_def LoggerError_def Let_def split: option.splits any.splits)

section \<open>Nil handles\<close>

text \<open>
  C10. For a nil database handle the before-hook (for any operation name, and so each of
  the six registered before-hooks) and the shared after-hook return at once: no handle
  comes back, so nothing was logged on one, and the process state (header value, spans,
  clock, identifiers, reported spans) is what it was.
\<close>

theorem nil_handle_hooks_return_at_once:
  "injectBefore None op w = (None, w) \<and> after None w = (None, w)
   \<and> beforeCreate None w = (None, w) \<and> beforeUpdate None w = (None, w)
   \<and> beforeQuery None w = (None, w) \<and> beforeDelete None w = (None, w)
   \<and> beforeRow None w = (None, w) \<and> beforeRaw None w = (None, w)"
  by (simp add: injectBefore_def after_def beforeCreate_def beforeUpdate_def beforeQuery_def
        beforeDelete_def beforeRow_def beforeRaw_def)

section \<open>Parent linkage\<close>

text \<open>
  C1. When the before-hook runs on a handle with a statement and a context, and the
  carrier \<open>H\<close> holds a present, well-formed trace context, the span stored for the
  operation has the inbound trace identifier as its trace identifier and the inbound span
  id as its parent-span-id (and the operation name the hook was called with).
\<close>

theorem before_hook_links_span_to_inbound_context:
  assumes "Statement db = Some st" and "Context st = Some ctx" and "b3_well_formed (H w)"
  shows "\<exists>s tid sid.
           stored_span (fst (injectBefore (Some db) op w)) (snd (injectBefore (Some db) op w)) = Some s
           \<and> inbound_trace_id (H w) = Some tid \<and> inbound_span_id (H w) = Some sid
           \<and> trace_id s = tid \<and> parent_span_id s = Some sid \<and> operation_name s = op"
proof -
  from assms(3) obtain tc where tc: "fst (Extract (H w)) = Some tc"
    using Extract_None[of "H w"] by auto
  have ids: "inbound_trace_id (H w) = Some (tc_trace_id tc)"
       "inbound_span_id (H w) = Some (tc_span_id tc)"
    using Extract_Some[OF tc] by simp_all
  show ?thesis
    by (simp add: injectBefore_bound[OF assms(1,2)] stored_span_def stored_ref_InstanceSet
          StartSpan_length tc StartSpan_heap_child ids)
qed

text \<open>
  The first scenario of section 8: trace id \<open>1a2b\<close> (6699) and span id \<open>00ff\<close> (255).
\<close>

theorem before_hook_links_span_witness:
  "\<exists>s. stored_span (fst (injectBefore (Some users_db) opQuery (world_with query_carrier)))
          (snd (injectBefore (Some users_db) opQuery (world_with query_carrier))) = Some s
        \<and> trace_id s = 6699 \<and> parent_span_id s = Some 255 \<and> operation_name s = ''query''"
proof -
  have wf: "b3_well_formed (H (world_with query_carrier))"
    by (simp add: world_with_def query_carrier_def b3_well_formed_def hex_string_def hex_digit_def)
  have st: "Statement users_db = Some users_statement"
    by (simp add: users_db_def)
  have cx: "Context users_statement = Some Background"
    by (simp add: users_statement_def)
  have t: "inbound_trace_id (H (world_with query_carrier)) = Some 6699"
    by (simp add: world_with_def query_carrier_def inbound_trace_id_def parse_hex_def hex_digit_def)
  have p: "inbound_span_id (H (world_with query_carrier)) = Some 255"
    by (simp add: world_with_def query_carrier_def inbound_span_id_def parse_hex_def hex_digit_def)
  show ?thesis
    using before_hook_links_span_to_inbound_context[OF st cx wf, of opQuery] t p
    by (auto simp: opQuery_def)
qed



section \<open>Errors of the operation\<close>

text \<open>
  C3. When the operation failed with error \<open>e\<close> and the handle holds a span, the
  after-hook logs \<open>e\<close> on that span and returns the handle as it was: error, result and
  statement unchanged. On any handle at all (with a span or without, nil or not), neither
  hook changes the error or the result of the operation.
\<close>

theorem after_hook_records_error_and_keeps_outcome:
  assumes "Statement db = Some st" and "Context st = Some ctx"
    and "InstanceGet spankey st = Some (SpanValue r)" and "r < length (heap w)"
    and "Error db = Some e"
  shows "(\<exists>s. fst (after (Some db) w) = Some db
            \<and> stored_span (Some db) (snd (after (Some db) w)) = Some s
            \<and> ErrorField e \<in> set (annotations s))
         \<and> map_option Error (fst (after dbp v)) = map_option Error dbp
         \<and> map_option RowsAffected (fst (after dbp v)) = map_option RowsAffected dbp
         \<and> map_option Error (fst (injectBefore dbp op v)) = map_option Error dbp
         \<and> map_option RowsAffected (fst (injectBefore dbp op v)) = map_option RowsAffected dbp"
  using assms before_preserves_outcome[of dbp op v] after_preserves_outcome[of dbp v]
  by (simp add: after_bound[OF assms(1-4)] stored_span_def stored_ref_def logged_fields_def)

text \<open>The second scenario of section 8: a create that fails with "duplicate key".\<close>

theorem after_hook_records_error_witness:
  "\<exists>s. fst (after (Some failed_db) world_bound) = Some failed_db
      \<and> stored_span (Some failed_db) (snd (after (Some failed_db) world_bound)) = Some s
      \<and> ErrorField ''duplicate key'' \<in> set (annotations s)"
proof -
  have a: "Statement failed_db = Some (InstanceSet spankey (SpanValue 0) users_statement)"
    by (simp add: failed_db_def)
  have b: "Context (InstanceSet spankey (SpanValue 0) users_statement) = Some Background"
    by (simp add: InstanceSet_def users_statement_def)
  have c: "InstanceGet spankey (InstanceSet spankey (SpanValue 0) users_statement) = Some (SpanValue 0)"
    by (simp add: InstanceSet_def InstanceGet_def)
  have d: "0 < length (heap world_bound)"
    by (simp add: world_bound_def)
  have e: "Error failed_db = Some ''duplicate key''"
    by (simp add: failed_db_def)
  show ?thesis
    using after_hook_records_error_and_keeps_outcome[OF a b c d e] by blast
qed

section \<open>Pairing of the hooks\<close>

text \<open>
  C4. Let the before-hook create and store a span (the handle has a statement and a
  context), and let the host then run the operation: it may change the handle and let
  time pass, but keeps the statement's context and stored value and does not touch the
  spans. Then the after-hook finishes the very span the before-hook stored, once: that
  span had not been reported, the after-hook hands it to the reporter exactly one time,
  and it is finished with an end time no earlier than its start time.
\<close>

theorem after_hook_finishes_stored_span_once:
  assumes "Statement db = Some st" and "Context st = Some ctx"
    and "injectBefore (Some db) op w = (Some db1, w1)"
    and "set (reported w) \<subseteq> {..<length (heap w)}"
    and "Statement db2 = Some st2" and "Context st2 = Some ctx2"
    and "stored_ref (Some db2) = stored_ref (Some db1)"
    and "heap w2 = heap w1" and "reported w2 = reported w1" and "now w1 \<le> now w2"
  shows "\<exists>r s t.
           stored_ref (Some db1) = Some r \<and> r = length (heap w) \<and> r \<notin> set (reported w2)
           \<and> reported (snd (after (Some db2) w2)) = reported w2 @ [r]
           \<and> count_list (reported (snd (after (Some db2) w2))) r = 1
           \<and> stored_span (Some db2) (snd (after (Some db2) w2)) = Some s
           \<and> finished s \<and> end_time s = Some t \<and> start_time s \<le> t"
proof -
  let ?r = "length (heap w)"
  let ?W = "snd (StartSpanFromContext ctx op (fst (Extract (H w))) w)"
  from assms(3) have db1: "db1 = db\<lparr>Statement := Some (InstanceSet spankey (SpanValue ?r) st)\<rparr>"
    and w1: "w1 = ?W"
    by (simp_all add: injectBefore_bound[OF assms(1,2)])
  have ref1: "stored_ref (Some db1) = Some ?r"
    by (simp add: db1 stored_ref_InstanceSet)
  have get2: "InstanceGet spankey st2 = Some (SpanValue ?r)"
    using assms(7) assms(5) ref1
    by (auto simp: stored_ref_def split: option.splits any.splits)
  have len: "?r < length (heap w2)"
    by (simp add: assms(8) w1 StartSpan_length)
  have rep: "reported w2 = reported w"
    by (simp add: assms(9) w1 StartSpan_frame)
  have fresh: "?r \<notin> set (reported w2)"
    using assms(4) rep by auto
  have start: "start_time (heap w2 ! ?r) = now w"
    by (cases "fst (Extract (H w))")
       (simp_all add: assms(8) w1 StartSpan_heap_root StartSpan_heap_child)
  have clock: "now w \<le> now w2"
    using assms(10) by (simp add: w1 StartSpan_frame)
  have ref2: "stored_ref (Some db2) = Some ?r"
    using assms(7) ref1 by simp
  show ?thesis
    using fresh len start clock
    by (simp add: after_bound[OF assms(5,6) get2 len] ref1 ref2 stored_span_def
          count_list_0_iff)
qed

text \<open>The query scenario: the span started at 100 is finished at 130.\<close>

theorem after_hook_finishes_once_witness:
  "\<exists>s t. reported (snd (after (Some (bound_db\<lparr>RowsAffected := 3\<rparr>)) (world_started\<lparr>now := 130\<rparr>))) = [0]
     \<and> stored_span (Some (bound_db\<lparr>RowsAffected := 3\<rparr>))
          (snd (after (Some (bound_db\<lparr>RowsAffected := 3\<rparr>)) (world_started\<lparr>now := 130\<rparr>))) = Some s
     \<and> finished s \<and> end_time s = Some t \<and> start_time s \<le> t"
proof -
  have a: "Statement users_db = Some users_statement"
    by (simp add: users_db_def)
  have b: "Context users_statement = Some Background"
    by (simp add: users_statement_def)
  have c: "injectBefore (Some users_db) opQuery (world_with query_carrier) = (Some bound_db, world_started)"
    by (simp add: injectBefore_bound[OF a b] bound_db_def world_started_def world_with_def)
  have d: "set (reported (world_with query_carrier)) \<subseteq> {..<length (heap (world_with query_carrier))}"
    by (simp add: world_with_def)
  have e: "Statement (bound_db\<lparr>RowsAffected := 3\<rparr>) = Some (InstanceSet spankey (SpanValue 0) users_statement)"
    by (simp add: bound_db_def)
  have f: "Context (InstanceSet spankey (SpanValue 0) users_statement) = Some Background"
    by (simp add: InstanceSet_def users_statement_def)
  have g: "stored_ref (Some (bound_db\<lparr>RowsAffected := 3\<rparr>)) = stored_ref (Some bound_db)"
    by (simp add: stored_ref_def bound_db_def)
  have h: "heap (world_started\<lparr>now := 130\<rparr>) = heap world_started"
    "reported (world_started\<lparr>now := 130\<rparr>) = reported world_started"
    by simp_all
  have i: "now world_started \<le> now (world_started\<lparr>now := 130\<rparr>)"
    by (simp add: world_started_def injectBefore_bound[OF a b] StartSpan_frame world_with_def)
  have j: "reported world_started = []"
    by (simp add: world_started_def injectBefore_bound[OF a b] StartSpan_frame world_with_def)
  have k: "length (heap (world_with query_carrier)) = 0"
    by (simp add: world_with_def)
  show ?thesis
    using after_hook_finishes_stored_span_once[OF a b c d e f g h i] j k
    by auto
qed

section \<open>Missing execution context\<close>

text \<open>
  C5, as stated, has the after-hook do nothing once the before-hook found no statement
  or context. On a handle without a statement the after-hook writes the diagnostic again,
  so running it changes the handle.
\<close>

theorem after_hook_without_context_logs_again:
  "after (fst (injectBefore (Some detached_db) opQuery (world_with Map.empty)))
         (snd (injectBefore (Some detached_db) opQuery (world_with Map.empty)))
   \<noteq> injectBefore (Some detached_db) opQuery (world_with Map.empty)"
  by (simp add: injectBefore_def after_def detached_db_def LoggerError_def)

text \<open>
  C5, amended. For every operation name, if the statement or its context is nil, the
  before-hook writes the diagnostic to the handle's logger and does nothing else: the
  process state is unchanged and no span is stored. The after-hook on that handle, at any
  later process state, leaves the process state unchanged (no span is created, annotated
  or finished) and writes the same diagnostic once more.
\<close>

theorem hooks_without_context_only_log:
  assumes "Statement db = None \<or> (\<exists>st. Statement db = Some st \<and> Context st = None)"
  shows "injectBefore (Some db) op w = (Some (LoggerError undefined_statement_msg db), w)
         \<and> stored_ref (Some (LoggerError undefined_statement_msg db)) = stored_ref (Some db)
         \<and> after (Some (LoggerError undefined_statement_msg db)) w' =
             (Some (LoggerError undefined_statement_msg (LoggerError undefined_statement_msg db)), w')"
  using assms
  by (auto simp: injectBefore_def after_def LoggerError_def stored_ref_def)

text \<open>A handle without a statement: one diagnostic after the before-hook, two after both.\<close>

theorem hooks_without_context_witness:
  "injectBefore (Some detached_db) opQuery (world_with Map.empty) =
     (Some (detached_db\<lparr>Logger := [undefined_statement_msg]\<rparr>), world_with Map.empty)
   \<and> after (Some (detached_db\<lparr>Logger := [undefined_statement_msg]\<rparr>)) (world_with Map.empty) =
     (Some (detached_db\<lparr>Logger := [undefined_statement_msg, undefined_statement_msg]\<rparr>),
      world_with Map.empty)"
proof -
  have a: "Statement detached_db = None \<or> (\<exists>st. Statement detached_db = Some st \<and> Context st = None)"
    by (simp add: detached_db_def)
  have b: "LoggerError undefined_statement_msg detached_db = detached_db\<lparr>Logger := [undefined_statement_msg]\<rparr>"
    "LoggerError undefined_statement_msg (detached_db\<lparr>Logger := [undefined_statement_msg]\<rparr>) =
       detached_db\<lparr>Logger := [undefined_statement_msg, undefined_statement_msg]\<rparr>"
    by (simp_all add: LoggerError_def detached_db_def)
  show ?thesis
    using hooks_without_context_only_log[OF a, of opQuery "world_with Map.empty" "world_with Map.empty"]
    by (simp add: b)
qed

section \<open>Stored value missing or of the wrong type\<close>

text \<open>
  C6, as stated, has the after-hook do nothing and never crash whenever the value under
  the span key is absent, nil or not a span. The guard on the statement and its context
  comes before the lookup: on a handle whose statement has no context and nothing stored,
  the hook writes the diagnostic, so the call changes the handle. And a span value that
  holds a nil pointer gets past both nil tests of the hook, which then panics.
\<close>

theorem after_hook_absent_value_without_context_logs:
  "InstanceGet spankey (users_statement\<lparr>Context := None\<rparr>) = None
   \<and> after (Some unbound_db) world_bound \<noteq> (Some unbound_db, world_bound)
   \<and> after (Some unbound_db) world_bound =
       (Some (unbound_db\<lparr>Logger := [undefined_statement_msg]\<rparr>), world_bound)
   \<and> after (Some nil_span_db) world_bound =
       (Some nil_span_db, world_bound\<lparr>panicked := Some NilPointerDereference\<rparr>)
   \<and> panicked world_bound = None"
  by (simp add: after_def unbound_db_def nil_span_db_def users_db_def users_statement_def
        InstanceGet_def InstanceSet_def LoggerError_def world_bound_def)

text \<open>
  C6, amended. When the after-hook reaches the lookup (the handle has a statement and
  the statement a context) and the value under the span key is absent, the nil interface
  or a value that is not a span, it returns the handle and the process state unchanged:
  nothing is logged, no span is touched and no panic is raised. The wrong-type case gives
  the same result as the absent case.
\<close>

theorem after_hook_without_span_changes_nothing:
  assumes "Statement db = Some st" and "Context st = Some ctx"
    and "InstanceGet spankey st = None \<or> InstanceGet spankey st = Some Nil
         \<or> (\<exists>x. InstanceGet spankey st = Some (OtherValue x))"
  shows "after (Some db) w = (Some db, w)"
  using assms by (auto simp: after_def)

text \<open>The three cases on the scenario handle.\<close>

theorem after_hook_without_span_witness:
  "after (Some users_db) world_bound = (Some users_db, world_bound)
   \<and> after (Some (users_db\<lparr>Statement := Some (InstanceSet spankey Nil users_statement)\<rparr>)) world_bound
       = (Some (users_db\<lparr>Statement := Some (InstanceSet spankey Nil users_statement)\<rparr>), world_bound)
   \<and> after (Some (users_db\<lparr>Statement :=
          Some (InstanceSet spankey (OtherValue ''not a span'') users_statement)\<rparr>)) world_bound
       = (Some (users_db\<lparr>Statement :=
          Some (InstanceSet spankey (OtherValue ''not a span'') users_statement)\<rparr>), world_bound)"
proof -
  have a: "Statement users_db = Some users_statement"
    by (simp add: users_db_def)
  have b: "Context users_statement = Some Background"
    by (simp add: users_statement_def)
  have c: "InstanceGet spankey users_statement = None \<or> InstanceGet spankey users_statement = Some Nil
         \<or> (\<exists>x. InstanceGet spankey users_statement = Some (OtherValue x))"
    by (simp add: InstanceGet_def users_statement_def)
  have a2: "Statement (users_db\<lparr>Statement := Some (InstanceSet spankey v users_statement)\<rparr>)
              = Some (InstanceSet spankey v users_statement)" for v
    by simp
  have b2: "Context (InstanceSet spankey v users_statement) = Some Background" for v
    by (simp add: InstanceSet_def users_statement_def)
  have c2: "InstanceGet spankey (InstanceSet spankey v users_statement) = None
         \<or> InstanceGet spankey (InstanceSet spankey v users_statement) = Some Nil
         \<or> (\<exists>x. InstanceGet spankey (InstanceSet spankey v users_statement) = Some (OtherValue x))"
    if "v = Nil \<or> v = OtherValue ''not a span''" for v
    using that by (auto simp: InstanceGet_def InstanceSet_def)
  show ?thesis
    using after_hook_without_span_changes_nothing[OF a b c, of world_bound]
      after_hook_without_span_changes_nothing[OF a2 b2 c2, of Nil world_bound]
      after_hook_without_span_changes_nothing[OF a2 b2 c2, of "OtherValue ''not a span''" world_bound]
    by simp
qed

section \<open>Annotations\<close>

text \<open>
  C7. The claim has the span annotated with the resolved parameter values. In the query
  scenario, with the bound value \<open>xiaoming\<close>, the annotation under \<open>bindings\<close> is the raw
  statement text, the same string as under \<open>query\<close>; the bound value appears only inside
  the rendered \<open>sql\<close> annotation.
\<close>

theorem bindings_annotation_is_raw_sql:
  "map_option annotations
     (stored_span (Some bound_db) (snd (after (Some bound_db) (world_started\<lparr>now := 130\<rparr>)))) =
   Some [StringField ''sql'' ''SELECT * FROM users WHERE name = ? [xiaoming]'',
         StringField ''table'' ''users'',
         StringField ''query'' ''SELECT * FROM users WHERE name = ?'',
         StringField ''bindings'' ''SELECT * FROM users WHERE name = ?'']"
proof -
  have a: "Statement bound_db = Some (InstanceSet spankey (SpanValue 0) users_statement)"
    by (simp add: bound_db_def)
  have b: "Context (InstanceSet spankey (SpanValue 0) users_statement) = Some Background"
    by (simp add: InstanceSet_def users_statement_def)
  have c: "InstanceGet spankey (InstanceSet spankey (SpanValue 0) users_statement) = Some (SpanValue 0)"
    by (simp add: InstanceSet_def InstanceGet_def)
  have u: "Statement users_db = Some users_statement" "Context users_statement = Some Background"
    by (simp_all add: users_db_def users_statement_def)
  have h: "heap world_started =
             [\<lparr>span_id = 7, trace_id = 6699, parent_span_id = Some 255, operation_name = ''query'',
               sampled = True, start_time = 100, end_time = None, annotations = [],
               finished = False\<rparr>]"
    by (simp add: world_started_def injectBefore_bound[OF u] world_with_def query_carrier_def
          Extract_def decode_b3_def inbound_trace_id_def inbound_span_id_def optional_field_def
          parse_hex_def hex_digit_def parse_flag_def StartSpanFromContext_def opQuery_def)
  have d: "0 < length (heap (world_started\<lparr>now := 130\<rparr>))"
    by (simp add: h)
  have f: "logged_fields bound_db (InstanceSet spankey (SpanValue 0) users_statement) =
             [StringField ''sql'' ''SELECT * FROM users WHERE name = ? [xiaoming]'',
              StringField ''table'' ''users'',
              StringField ''query'' ''SELECT * FROM users WHERE name = ?'',
              StringField ''bindings'' ''SELECT * FROM users WHERE name = ?'']"
    by (simp add: logged_fields_def bound_db_def users_db_def InstanceSet_def users_statement_def
          explain_inline_def)
  have r: "stored_ref (Some bound_db) = Some 0"
    by (simp add: stored_ref_def a c)
  show ?thesis
    by (simp add: after_bound[OF a b c d] stored_span_def r h f)
qed

section \<open>Failure at initialization\<close>

text \<open>
  C8. If the tracer cannot be constructed from the configuration, \<open>NewDefault\<close> returns
  no plugin: the process has written the failure message with the error and has exited
  with code 1, and no global tracer was set.
\<close>

theorem failed_tracer_construction_aborts_startup:
  assumes "NewTracer \<lparr>SamplerType = ''const'', SamplerParam = 1, ConfigServiceName = svcName,
                      ReporterLogSpans = True, ReporterCollectorEndpoint = collectorEndpoint\<rparr>
             = Inl err"
  shows "NewDefault NewTracer svcName collectorEndpoint p =
           (Inl 1, p\<lparr>log_output := log_output p @ [boot_failure_msg err]\<rparr>)"
  using assms by (simp add: NewDefault_def bootTracerBasedJaeger_def)

text \<open>A constructor that rejects the empty collector endpoint.\<close>

theorem failed_tracer_construction_witness:
  "NewDefault tracer_needs_endpoint ''orders'' [] \<lparr>log_output = [], GlobalTracer = None\<rparr> =
     (Inl 1, \<lparr>log_output = [boot_failure_msg ''no collector endpoint''], GlobalTracer = None\<rparr>)"
proof -
  have a: "tracer_needs_endpoint \<lparr>SamplerType = ''const'', SamplerParam = 1,
             ConfigServiceName = ''orders'', ReporterLogSpans = True,
             ReporterCollectorEndpoint = []\<rparr> = Inl ''no collector endpoint''"
    by (simp add: tracer_needs_endpoint_def)
  show ?thesis
    using failed_tracer_construction_aborts_startup
            [of tracer_needs_endpoint "''orders''" "[]" "''no collector endpoint''"
                "\<lparr>log_output = [], GlobalTracer = None\<rparr>"] a
    by simp
qed

section \<open>Interleaved operations\<close>

subsection \<open>The hooks by cases\<close>

lemma injectBefore_no_context:
  "\<not> has_context db \<Longrightarrow>
     injectBefore (Some db) op w = (Some (LoggerError undefined_statement_msg db), w)"
  by (auto simp: has_context_def injectBefore_def split: option.splits)

lemma after_no_context:
  "\<not> has_context db \<Longrightarrow>
     after (Some db) w = (Some (LoggerError undefined_statement_msg db), w)"
  by (auto simp: has_context_def after_def split: option.splits)

lemma injectBefore_context:
  assumes "has_context db"
  shows "\<exists>st. Statement db = Some st \<and>
           injectBefore (Some db) op w =
             (Some (db\<lparr>Statement := Some (InstanceSet spankey (SpanValue (length (heap w))) st)\<rparr>),
              snd (StartSpanFromContext Background op (fst (Extract (H w))) w))"
proof -
  from assms obtain st ctx where a: "Statement db = Some st" "Context st = Some ctx"
    by (auto simp: has_context_def split: option.splits)
  have "ctx = Background" by (cases ctx) simp
  with injectBefore_bound[OF a] a show ?thesis by simp
qed

lemma after_no_span:
  "has_context db \<Longrightarrow> stored_ref (Some db) = None \<Longrightarrow>
     \<exists>p. after (Some db) w = (Some db, w\<lparr>panicked := p\<rparr>)"
proof -
  assume c: "has_context db" and n: "stored_ref (Some db) = None"
  from c obtain st ctx where a: "Statement db = Some st" "Context st = Some ctx"
    by (auto simp: has_context_def split: option.splits)
  show ?thesis
  proof (cases "InstanceGet spankey st = Some NilSpanPointer")
    case True
    with a have "after (Some db) w = (Some db, w\<lparr>panicked := Some NilPointerDereference\<rparr>)"
      by (simp add: after_def)
    then show ?thesis by blast
  next
    case False
    with a n have "after (Some db) w = (Some db, w\<lparr>panicked := panicked w\<rparr>)"
      by (auto simp: stored_ref_def after_def split: option.splits any.splits)
    then show ?thesis by blast
  qed
qed

lemma after_span:
  assumes "has_context db" and "stored_ref (Some db) = Some r" and "r < length (heap w)"
  shows "after (Some db) w =
           (Some db,
            w\<lparr>heap := (heap w)[r := (heap w ! r)
                 \<lparr>annotations := annotations (heap w ! r) @ handle_fields db,
                  end_time := Some (now w), finished := True\<rparr>],
              reported := reported w @ [r]\<rparr>)"
proof -
  from assms(1) obtain st ctx where a: "Statement db = Some st" "Context st = Some ctx"
    by (auto simp: has_context_def split: option.splits)
  from assms(2) a have g: "InstanceGet spankey st = Some (SpanValue r)"
    by (auto simp: stored_ref_def split: option.splits any.splits)
  show ?thesis
    using after_bound[OF a g assms(3)] a by (simp add: handle_fields_def)
qed

lemma stored_ref_LoggerError [simp]:
  "stored_ref (Some (LoggerError m db)) = stored_ref (Some db)"
  by (simp add: stored_ref_def LoggerError_def)

lemma stored_ref_host [simp]:
  "stored_ref (Some (host_execute sql vars err rows db)) = stored_ref (Some db)"
  by (cases "Statement db") (simp_all add: stored_ref_def host_execute_def InstanceGet_def)

lemma handle_report_LoggerError [simp]:
  "handle_report (LoggerError m db) w = handle_report db w"
  by (simp add: handle_report_def stored_span_def)

lemma handle_report_host [simp]:
  "handle_report (host_execute sql vars err rows db) w = handle_report db w"
  by (simp add: handle_report_def stored_span_def)

subsection \<open>Steps of the system\<close>

lemma step_Before_no_context:
  "j < length (sys_ops s) \<Longrightarrow> \<not> has_context (sys_ops s ! j) \<Longrightarrow>
     step (Before j op) s =
       \<lparr>sys_world = sys_world s,
        sys_ops = (sys_ops s)[j := LoggerError undefined_statement_msg (sys_ops s ! j)]\<rparr>"
  by (simp add: run_hook_def injectBefore_no_context)

lemma step_Before_context:
  assumes "j < length (sys_ops s)" and "has_context (sys_ops s ! j)"
  shows "\<exists>st. Statement (sys_ops s ! j) = Some st \<and>
     step (Before j op) s =
       \<lparr>sys_world = snd (StartSpanFromContext Background op (fst (Extract (H (sys_world s)))) (sys_world s)),
        sys_ops = (sys_ops s)[j := (sys_ops s ! j)
           \<lparr>Statement := Some (InstanceSet spankey (SpanValue (length (heap (sys_world s)))) st)\<rparr>]\<rparr>"
  using injectBefore_context[OF assms(2), of op "sys_world s"] assms(1)
  by (auto simp: run_hook_def)

lemma step_After_no_context:
  "j < length (sys_ops s) \<Longrightarrow> \<not> has_context (sys_ops s ! j) \<Longrightarrow>
     step (After j) s =
       \<lparr>sys_world = sys_world s,
        sys_ops = (sys_ops s)[j := LoggerError undefined_statement_msg (sys_ops s ! j)]\<rparr>"
  by (simp add: run_hook_def after_no_context)

lemma step_After_no_span:
  assumes "j < length (sys_ops s)" and "has_context (sys_ops s ! j)"
    and "stored_ref (Some (sys_ops s ! j)) = None"
  shows "\<exists>p. step (After j) s =
           \<lparr>sys_world = (sys_world s)\<lparr>panicked := p\<rparr>, sys_ops = sys_ops s\<rparr>"
proof -
  from after_no_span[OF assms(2,3), of "sys_world s"] obtain p where
    "after (Some (sys_ops s ! j)) (sys_world s) = (Some (sys_ops s ! j), (sys_world s)\<lparr>panicked := p\<rparr>)"
    by blast
  with assms(1) have "step (After j) s =
      \<lparr>sys_world = (sys_world s)\<lparr>panicked := p\<rparr>, sys_ops = sys_ops s\<rparr>"
    by (simp add: run_hook_def)
  then show ?thesis by blast
qed

lemma step_After_span:
  "j < length (sys_ops s) \<Longrightarrow> has_context (sys_ops s ! j) \<Longrightarrow>
     stored_ref (Some (sys_ops s ! j)) = Some r \<Longrightarrow> r < length (heap (sys_world s)) \<Longrightarrow>
     step (After j) s =
       \<lparr>sys_world = (sys_world s)
          \<lparr>heap := (heap (sys_world s))[r := (heap (sys_world s) ! r)
                 \<lparr>annotations := annotations (heap (sys_world s) ! r) @ handle_fields (sys_ops s ! j),
                  end_time := Some (now (sys_world s)), finished := True\<rparr>],
              reported := reported (sys_world s) @ [r]\<rparr>,
        sys_ops = sys_ops s\<rparr>"
  by (simp add: run_hook_def after_span)

lemma step_length [simp]: "length (sys_ops (step e s)) = length (sys_ops s)"
proof (cases e)
  case (Before j op)
  then show ?thesis
    using step_Before_no_context[of j s op] step_Before_context[of j s op]
    by (cases "j < length (sys_ops s)"; cases "has_context (sys_ops s ! j)")
       (auto simp: run_hook_def)
next
  case (After j)
  show ?thesis
  proof (cases "j < length (sys_ops s)")
    case True
    obtain d w' where r: "after (Some (sys_ops s ! j)) (sys_world s) = (d, w')"
      by (cases "after (Some (sys_ops s ! j)) (sys_world s)")
    with True After show ?thesis by (cases d) (simp_all add: run_hook_def)
  next
    case False
    with After show ?thesis by (simp add: run_hook_def)
  qed
qed simp_all

subsection \<open>Stored references stay valid and distinct\<close>

lemma refs_okD:
  "refs_ok s \<Longrightarrow> i < length (sys_ops s) \<Longrightarrow> stored_ref (Some (sys_ops s ! i)) = Some r \<Longrightarrow>
     r < length (heap (sys_world s)) \<and>
     (\<forall>j<length (sys_ops s). j \<noteq> i \<longrightarrow> stored_ref (Some (sys_ops s ! j)) \<noteq> Some r)"
  unfolding refs_ok_def by (auto split: option.splits)

lemma refs_okI:
  assumes "\<And>i r. i < length (sys_ops s) \<Longrightarrow> stored_ref (Some (sys_ops s ! i)) = Some r \<Longrightarrow>
             r < length (heap (sys_world s)) \<and>
             (\<forall>j<length (sys_ops s). j \<noteq> i \<longrightarrow> stored_ref (Some (sys_ops s ! j)) \<noteq> Some r)"
  shows "refs_ok s"
  unfolding refs_ok_def using assms by (auto split: option.splits)

lemma refs_ok_same_refs:
  assumes "refs_ok s" and "length (sys_ops t) = length (sys_ops s)"
    and "\<And>i. i < length (sys_ops s) \<Longrightarrow>
           stored_ref (Some (sys_ops t ! i)) = stored_ref (Some (sys_ops s ! i))"
    and "length (heap (sys_world s)) \<le> length (heap (sys_world t))"
  shows "refs_ok t"
proof (rule refs_okI)
  fix i r
  assume i: "i < length (sys_ops t)" and r: "stored_ref (Some (sys_ops t ! i)) = Some r"
  from i r assms(2,3) have "stored_ref (Some (sys_ops s ! i)) = Some r" by simp
  from refs_okD[OF assms(1) _ this] i assms(2,3,4)
  show "r < length (heap (sys_world t)) \<and>
        (\<forall>j<length (sys_ops t). j \<noteq> i \<longrightarrow> stored_ref (Some (sys_ops t ! j)) \<noteq> Some r)"
    by auto
qed

lemma stored_ref_update_same:
  "stored_ref (Some d) = stored_ref (Some (xs ! j)) \<Longrightarrow> i < length xs \<Longrightarrow>
     stored_ref (Some (xs[j := d] ! i)) = stored_ref (Some (xs ! i))"
  by (cases "i = j") simp_all

lemma step_refs_ok:
  assumes "refs_ok s"
  shows "refs_ok (step e s)"
proof (cases e)
  case (SetH j c)
  then show ?thesis using assms by (auto intro: refs_ok_same_refs[OF assms])
next
  case (Tick d)
  then show ?thesis using assms by (auto intro: refs_ok_same_refs[OF assms])
next
  case (Host j sql vars err rows)
  then show ?thesis
    by (auto intro!: refs_ok_same_refs[OF assms] stored_ref_update_same)
next
  case (After j)
  show ?thesis
  proof (cases "j < length (sys_ops s)")
    case False
    with After assms show ?thesis by (simp add: run_hook_def)
  next
    case j: True
    show ?thesis
    proof (cases "has_context (sys_ops s ! j)")
      case False
      show ?thesis
        unfolding After step_After_no_context[OF j False]
        by (rule refs_ok_same_refs[OF assms]) (auto intro: stored_ref_update_same)
    next
      case c: True
      show ?thesis
      proof (cases "stored_ref (Some (sys_ops s ! j))")
        case None
        from step_After_no_span[OF j c None] obtain p where
          eq: "step (After j) s =
                 \<lparr>sys_world = (sys_world s)\<lparr>panicked := p\<rparr>, sys_ops = sys_ops s\<rparr>"
          by blast
        show ?thesis
          unfolding After eq
          by (rule refs_ok_same_refs[OF assms]) auto
      next
        case (Some r)
        from refs_okD[OF assms j Some] have v: "r < length (heap (sys_world s))" by simp
        show ?thesis
          unfolding After step_After_span[OF j c Some v]
          by (rule refs_ok_same_refs[OF assms]) auto
      qed
    qed
  qed
next
  case (Before j op)
  show ?thesis
  proof (cases "j < length (sys_ops s)")
    case False
    with Before assms show ?thesis by (simp add: run_hook_def)
  next
    case j: True
    show ?thesis
    proof (cases "has_context (sys_ops s ! j)")
      case False
      show ?thesis
        unfolding Before step_Before_no_context[OF j False]
        by (rule refs_ok_same_refs[OF assms]) (auto intro: stored_ref_update_same)
    next
      case c: True
      from step_Before_context[OF j c, of op] obtain st where
        st: "Statement (sys_ops s ! j) = Some st" and
        eq: "step (Before j op) s =
          \<lparr>sys_world = snd (StartSpanFromContext Background op (fst (Extract (H (sys_world s)))) (sys_world s)),
           sys_ops = (sys_ops s)[j := (sys_ops s ! j)
             \<lparr>Statement := Some (InstanceSet spankey (SpanValue (length (heap (sys_world s)))) st)\<rparr>]\<rparr>"
        by blast
      show ?thesis
        unfolding Before eq
      proof (rule refs_okI, goal_cases)
        case (1 i r)
        show ?case
        proof (cases "i = j")
          case True
          with 1 j have r: "r = length (heap (sys_world s))"
            by (simp add: stored_ref_InstanceSet)
          have "stored_ref (Some (sys_ops s ! k)) \<noteq> Some r" if "k < length (sys_ops s)" for k
            using refs_okD[OF assms that, of r] r by auto
          with r True show ?thesis
            by (auto simp: StartSpan_length nth_list_update)
        next
          case False
          with 1 have old: "i < length (sys_ops s)" "stored_ref (Some (sys_ops s ! i)) = Some r"
            by (simp_all add: nth_list_update)
          from refs_okD[OF assms old] have v: "r < length (heap (sys_world s))"
            and others: "\<And>k. k < length (sys_ops s) \<Longrightarrow> k \<noteq> i \<Longrightarrow>
                           stored_ref (Some (sys_ops s ! k)) \<noteq> Some r"
            by auto
          have "stored_ref (Some ((sys_ops s)[j := (sys_ops s ! j)
                  \<lparr>Statement := Some (InstanceSet spankey
                     (SpanValue (length (heap (sys_world s)))) st)\<rparr>] ! k)) \<noteq> Some r"
            if "k < length (sys_ops s)" "k \<noteq> i" for k
          proof (cases "k = j")
            case True
            with that v show ?thesis by (simp add: stored_ref_InstanceSet)
          next
            case False
            with that others[of k] show ?thesis by simp
          qed
          with v show ?thesis
            by (simp add: StartSpan_length)
        qed
      qed
    qed
  qed
qed

subsection \<open>Events of other operations\<close>

lemma handle_report_frame:
  assumes "\<And>r. stored_ref (Some db) = Some r \<Longrightarrow>
             r < length (heap w) \<and> r < length (heap w') \<and> heap w' ! r = heap w ! r"
  shows "handle_report db w' = handle_report db w"
  using assms by (cases "stored_ref (Some db)") (simp_all add: handle_report_def stored_span_def)

lemma handle_report_heap:
  "heap w' = heap w \<Longrightarrow> handle_report db w' = handle_report db w"
  by (cases "stored_ref (Some db)") (simp_all add: handle_report_def stored_span_def)

lemma handle_report_H [simp]: "handle_report db (w\<lparr>H := c\<rparr>) = handle_report db w"
  by (rule handle_report_heap) simp

lemma handle_report_now [simp]: "handle_report db (w\<lparr>now := t\<rparr>) = handle_report db w"
  by (rule handle_report_heap) simp

lemma handle_report_panicked [simp]:
  "handle_report db (w\<lparr>panicked := p\<rparr>) = handle_report db w"
  by (rule handle_report_heap) simp

lemma StartSpan_heap_old:
  "r < length (heap w) \<Longrightarrow> heap (snd (StartSpanFromContext ctx op parent w)) ! r = heap w ! r"
  by (simp add: StartSpanFromContext_def nth_append split: option.splits)

lemma update_span_now [simp]: "now (update_span r f w) = now w"
  by (simp add: update_span_def)

lemma LogFields_now [simp]: "now (LogFields r fld w) = now w"
  by (simp add: LogFields_def)

lemma Finish_now [simp]: "now (Finish r w) = now w"
  by (simp add: Finish_def)

lemma after_now: "now (snd (after dbp w)) = now w"
  by (simp add: after_def Let_def split: option.splits any.splits)

lemma injectBefore_now: "now (snd (injectBefore dbp op w)) = now w"
proof (cases dbp)
  case None
  then show ?thesis by (simp add: injectBefore_def)
next
  case (Some db)
  then show ?thesis
    using injectBefore_no_context[of db op w] injectBefore_context[of db op w]
    by (cases "has_context db") (auto simp: StartSpan_frame)
qed

lemma run_hook_now:
  "(\<And>dbp w. now (snd (hook dbp w)) = now w) \<Longrightarrow>
     now (sys_world (run_hook hook i s)) = now (sys_world s)"
proof -
  assume h: "\<And>dbp w. now (snd (hook dbp w)) = now w"
  obtain d w' where r: "hook (Some (sys_ops s ! i)) (sys_world s) = (d, w')"
    by (cases "hook (Some (sys_ops s ! i)) (sys_world s)")
  with h[of "Some (sys_ops s ! i)" "sys_world s"] have "now w' = now (sys_world s)" by simp
  with r show ?thesis by (cases d) (simp_all add: run_hook_def)
qed

lemma step_now:
  "now (sys_world (step e s)) =
     (case e of Tick d \<Rightarrow> now (sys_world s) + d | _ \<Rightarrow> now (sys_world s))"
  by (cases e) (simp_all add: run_hook_now after_now injectBefore_now)

lemma step_other:
  assumes "refs_ok s" and "\<not> concerns i e" and "i < length (sys_ops s)"
  shows "sys_ops (step e s) ! i = sys_ops s ! i \<and> span_report i (step e s) = span_report i s"
proof (cases e)
  case (SetH j c)
  then show ?thesis
    using assms(3) by (simp add: span_report_def)
next
  case (Tick d)
  with assms(2) show ?thesis by simp
next
  case (Host j sql vars err rows)
  with assms(2,3) show ?thesis by (simp add: span_report_def)
next
  case (Before j op)
  with assms(2) have ne: "j \<noteq> i" by simp
  show ?thesis
  proof (cases "j < length (sys_ops s)")
    case False
    with Before show ?thesis by (simp add: run_hook_def span_report_def)
  next
    case j: True
    show ?thesis
    proof (cases "has_context (sys_ops s ! j)")
      case False
      show ?thesis
        unfolding Before step_Before_no_context[OF j False]
        using ne assms(3) by (simp add: span_report_def)
    next
      case c: True
      from step_Before_context[OF j c, of op] obtain st where
        eq: "step (Before j op) s =
          \<lparr>sys_world = snd (StartSpanFromContext Background op (fst (Extract (H (sys_world s)))) (sys_world s)),
           sys_ops = (sys_ops s)[j := (sys_ops s ! j)
             \<lparr>Statement := Some (InstanceSet spankey (SpanValue (length (heap (sys_world s)))) st)\<rparr>]\<rparr>"
        by blast
      have "handle_report (sys_ops s ! i)
              (snd (StartSpanFromContext Background op (fst (Extract (H (sys_world s)))) (sys_world s)))
            = handle_report (sys_ops s ! i) (sys_world s)"
      proof (rule handle_report_frame)
        fix r
        assume "stored_ref (Some (sys_ops s ! i)) = Some r"
        from refs_okD[OF assms(1,3) this] have "r < length (heap (sys_world s))"
          by simp
        then show "r < length (heap (sys_world s)) \<and>
            r < length (heap (snd (StartSpanFromContext Background op
                   (fst (Extract (H (sys_world s)))) (sys_world s)))) \<and>
            heap (snd (StartSpanFromContext Background op
                   (fst (Extract (H (sys_world s)))) (sys_world s))) ! r = heap (sys_world s) ! r"
          by (simp add: StartSpan_length StartSpan_heap_old)
      qed
      then show ?thesis
        unfolding Before eq using ne assms(3) by (simp add: span_report_def)
    qed
  qed
next
  case (After j)
  with assms(2) have ne: "j \<noteq> i" by simp
  show ?thesis
  proof (cases "j < length (sys_ops s)")
    case False
    with After show ?thesis by (simp add: run_hook_def span_report_def)
  next
    case j: True
    show ?thesis
    proof (cases "has_context (sys_ops s ! j)")
      case False
      show ?thesis
        unfolding After step_After_no_context[OF j False]
        using ne assms(3) by (simp add: span_report_def)
    next
      case c: True
      show ?thesis
      proof (cases "stored_ref (Some (sys_ops s ! j))")
        case None
        from step_After_no_span[OF j c None] obtain p where
          eq: "step (After j) s =
                 \<lparr>sys_world = (sys_world s)\<lparr>panicked := p\<rparr>, sys_ops = sys_ops s\<rparr>"
          by blast
        show ?thesis
          unfolding After eq using assms(3) by (simp add: span_report_def)
      next
        case (Some r)
        from refs_okD[OF assms(1) j Some] assms(3) ne
        have v: "r < length (heap (sys_world s))"
          and other: "stored_ref (Some (sys_ops s ! i)) \<noteq> Some r"
          by auto
        have "handle_report (sys_ops s ! i)
                ((sys_world s)
                  \<lparr>heap := (heap (sys_world s))[r := (heap (sys_world s) ! r)
                     \<lparr>annotations := annotations (heap (sys_world s) ! r) @ handle_fields (sys_ops s ! j),
                      end_time := Some (now (sys_world s)), finished := True\<rparr>],
                   reported := reported (sys_world s) @ [r]\<rparr>)
              = handle_report (sys_ops s ! i) (sys_world s)"
        proof (rule handle_report_frame)
          fix q
          assume q: "stored_ref (Some (sys_ops s ! i)) = Some q"
          from refs_okD[OF assms(1,3) q] have "q < length (heap (sys_world s))"
            by simp
          moreover from q other have "q \<noteq> r"
            by auto
          ultimately show "q < length (heap (sys_world s)) \<and>
              q < length (heap ((sys_world s)
                  \<lparr>heap := (heap (sys_world s))[r := (heap (sys_world s) ! r)
                     \<lparr>annotations := annotations (heap (sys_world s) ! r) @ handle_fields (sys_ops s ! j),
                      end_time := Some (now (sys_world s)), finished := True\<rparr>],
                   reported := reported (sys_world s) @ [r]\<rparr>)) \<and>
              heap ((sys_world s)
                  \<lparr>heap := (heap (sys_world s))[r := (heap (sys_world s) ! r)
                     \<lparr>annotations := annotations (heap (sys_world s) ! r) @ handle_fields (sys_ops s ! j),
                      end_time := Some (now (sys_world s)), finished := True\<rparr>],
                   reported := reported (sys_world s) @ [r]\<rparr>) ! q = heap (sys_world s) ! q"
            by simp
        qed
        then show ?thesis
          unfolding After step_After_span[OF j c Some v]
          using assms(3) by (simp add: span_report_def)
      qed
    qed
  qed
qed

subsection \<open>Events of the operation itself\<close>

lemma same_handle_has_context: "same_handle a b \<Longrightarrow> has_context a = has_context b"
  by (cases "Statement a"; cases "Statement b")
     (simp_all add: same_handle_def has_context_def same_statement_def)

lemma same_handle_fields: "same_handle a b \<Longrightarrow> handle_fields a = handle_fields b"
  by (cases "Statement a"; cases "Statement b")
     (simp_all add: same_handle_def handle_fields_def same_statement_def logged_fields_def)

lemma span_blind_eq:
  "span_blind x = span_blind y \<Longrightarrow>
     ((\<exists>r. x = Some (SpanValue r)) = (\<exists>r. y = Some (SpanValue r)))"
  by (cases x; cases y) (auto simp: span_blind_def split: any.splits)

lemma same_handle_ref_None:
  "same_handle a b \<Longrightarrow> (stored_ref (Some a) = None) = (stored_ref (Some b) = None)"
proof (cases "Statement a"; cases "Statement b")
  fix x y
  assume h: "same_handle a b" and a: "Statement a = Some x" and b: "Statement b = Some y"
  then have "span_blind (InstanceGet spankey x) = span_blind (InstanceGet spankey y)"
    by (simp add: same_handle_def same_statement_def)
  from span_blind_eq[OF this] a b
  show "(stored_ref (Some a) = None) = (stored_ref (Some b) = None)"
    by (auto simp: stored_ref_def split: option.splits any.splits)
qed (simp_all add: same_handle_def stored_ref_def)

lemma same_handle_LoggerError:
  "same_handle a b \<Longrightarrow> same_handle (LoggerError m a) (LoggerError m b)"
  by (simp add: same_handle_def LoggerError_def)

lemma same_handle_host:
  "same_handle a b \<Longrightarrow>
     same_handle (host_execute sql vars err rows a) (host_execute sql vars err rows b)"
  by (cases "Statement a"; cases "Statement b")
     (simp_all add: same_handle_def host_execute_def same_statement_def InstanceGet_def)

lemma same_handle_store:
  "same_handle a b \<Longrightarrow> Statement a = Some x \<Longrightarrow> Statement b = Some y \<Longrightarrow>
     same_handle (a\<lparr>Statement := Some (InstanceSet spankey (SpanValue n) x)\<rparr>)
                 (b\<lparr>Statement := Some (InstanceSet spankey (SpanValue m) y)\<rparr>)"
  by (simp add: same_handle_def same_statement_def InstanceSet_def InstanceGet_def span_blind_def)

lemma handle_report_started:
  "handle_report (db\<lparr>Statement := Some (InstanceSet spankey (SpanValue (length (heap w))) st)\<rparr>)
     (snd (StartSpanFromContext ctx op parent w)) = Some (op, [], now w, None, False)"
  by (cases parent)
     (simp_all add: handle_report_def stored_span_def stored_ref_InstanceSet StartSpan_length
        StartSpan_heap_child StartSpan_heap_root)

lemma handle_report_finished:
  "stored_ref (Some db) = Some r \<Longrightarrow> r < length (heap w) \<Longrightarrow>
     handle_report db
       (w\<lparr>heap := (heap w)[r := (heap w ! r)
              \<lparr>annotations := annotations (heap w ! r) @ f, end_time := Some t, finished := True\<rparr>],
          reported := x\<rparr>) =
     map_option (\<lambda>(op, an, st, en, fi). (op, an @ f, st, Some t, True)) (handle_report db w)"
  by (simp add: handle_report_def stored_span_def)

lemma step_own:
  assumes "related i s t" and "concerns i e"
  shows "related i (step e s) (step e t)"
proof -
  from assms(1) have len: "length (sys_ops s) = length (sys_ops t)"
    and nw: "now (sys_world s) = now (sys_world t)"
    and oks: "refs_ok s" and okt: "refs_ok t"
    by (simp_all add: related_def)
  have main: "same_handle (sys_ops (step e s) ! i) (sys_ops (step e t) ! i) \<and>
              span_report i (step e s) = span_report i (step e t)"
    if i: "i < length (sys_ops s)"
  proof -
    from assms(1) i have sh: "same_handle (sys_ops s ! i) (sys_ops t ! i)"
      and "span_report i s = span_report i t"
      by (simp_all add: related_def)
    with i len have rep: "handle_report (sys_ops s ! i) (sys_world s) =
                          handle_report (sys_ops t ! i) (sys_world t)"
      by (simp add: span_report_def)
    from i len have it: "i < length (sys_ops t)" by simp
    note ctx = same_handle_has_context[OF sh]
    show ?thesis
    proof (cases e)
      case (SetH j c)
      with sh rep i it show ?thesis by (simp add: span_report_def)
    next
      case (Tick d)
      with sh rep i it show ?thesis by (simp add: span_report_def)
    next
      case (Host j sql vars err rows)
      with assms(2) have "j = i" by simp
      with Host sh rep i it show ?thesis
        by (simp add: span_report_def same_handle_host)
    next
      case (Before j op)
      with assms(2) have j: "j = i" by simp
      show ?thesis
      proof (cases "has_context (sys_ops s ! i)")
        case False
        with ctx have "\<not> has_context (sys_ops t ! i)" by simp
        from step_Before_no_context[OF i False, of op] step_Before_no_context[OF it this, of op]
        show ?thesis
          unfolding Before j using sh rep i it
          by (simp add: span_report_def same_handle_LoggerError del: step.simps)
      next
        case True
        with ctx have ct: "has_context (sys_ops t ! i)" by simp
        from step_Before_context[OF i True, of op] obtain x where
          x: "Statement (sys_ops s ! i) = Some x" and
          es: "step (Before i op) s =
            \<lparr>sys_world = snd (StartSpanFromContext Background op (fst (Extract (H (sys_world s)))) (sys_world s)),
             sys_ops = (sys_ops s)[i := (sys_ops s ! i)
               \<lparr>Statement := Some (InstanceSet spankey (SpanValue (length (heap (sys_world s)))) x)\<rparr>]\<rparr>"
          by blast
        from step_Before_context[OF it ct, of op] obtain y where
          y: "Statement (sys_ops t ! i) = Some y" and
          et: "step (Before i op) t =
            \<lparr>sys_world = snd (StartSpanFromContext Background op (fst (Extract (H (sys_world t)))) (sys_world t)),
             sys_ops = (sys_ops t)[i := (sys_ops t ! i)
               \<lparr>Statement := Some (InstanceSet spankey (SpanValue (length (heap (sys_world t)))) y)\<rparr>]\<rparr>"
          by blast
        show ?thesis
          unfolding Before j es et using i it nw
          by (simp add: span_report_def handle_report_started same_handle_store[OF sh x y])
      qed
    next
      case (After j)
      with assms(2) have j: "j = i" by simp
      show ?thesis
      proof (cases "has_context (sys_ops s ! i)")
        case False
        with ctx have "\<not> has_context (sys_ops t ! i)" by simp
        from step_After_no_context[OF i False] step_After_no_context[OF it this]
        show ?thesis
          unfolding After j using sh rep i it
          by (simp add: span_report_def same_handle_LoggerError del: step.simps)
      next
        case True
        with ctx have ct: "has_context (sys_ops t ! i)" by simp
        show ?thesis
        proof (cases "stored_ref (Some (sys_ops s ! i))")
          case None
          with same_handle_ref_None[OF sh] have nt: "stored_ref (Some (sys_ops t ! i)) = None"
            by simp
          from step_After_no_span[OF i True None] obtain p where
            es: "step (After i) s =
                   \<lparr>sys_world = (sys_world s)\<lparr>panicked := p\<rparr>, sys_ops = sys_ops s\<rparr>"
            by blast
          from step_After_no_span[OF it ct nt] obtain q where
            et: "step (After i) t =
                   \<lparr>sys_world = (sys_world t)\<lparr>panicked := q\<rparr>, sys_ops = sys_ops t\<rparr>"
            by blast
          show ?thesis
            unfolding After j es et using sh rep i it
            by (simp add: span_report_def)
        next
          case (Some r)
          with same_handle_ref_None[OF sh] obtain q where
            q: "stored_ref (Some (sys_ops t ! i)) = Some q"
            by (cases "stored_ref (Some (sys_ops t ! i))") auto
          from refs_okD[OF oks i Some] have vr: "r < length (heap (sys_world s))" by simp
          from refs_okD[OF okt it q] have vq: "q < length (heap (sys_world t))" by simp
          show ?thesis
            unfolding After j step_After_span[OF i True Some vr] step_After_span[OF it ct q vq]
            using sh rep i it nw
            by (simp add: span_report_def handle_report_finished[OF Some vr]
                  handle_report_finished[OF q vq] same_handle_fields[OF sh])
        qed
      qed
    qed
  qed
  have nw': "now (sys_world (step e s)) = now (sys_world (step e t))"
    unfolding step_now using nw by (simp split: event.splits)
  show ?thesis
    unfolding related_def
    using len nw' step_refs_ok[OF oks, of e] step_refs_ok[OF okt, of e] main
    by (simp del: step.simps)
qed

lemma step_foreign:
  assumes "related i s t" and "\<not> concerns i e"
  shows "related i (step e s) t"
proof -
  from assms(1) have oks: "refs_ok s" by (simp add: related_def)
  from assms(2) have "now (sys_world (step e s)) = now (sys_world s)"
    unfolding step_now by (cases e) simp_all
  with assms(1) step_refs_ok[OF oks, of e] step_other[OF oks assms(2)]
  show ?thesis
    by (simp add: related_def del: step.simps)
qed

lemma run_related:
  "related i s t \<Longrightarrow> related i (run es s) (run (filter (concerns i) es) t)"
proof (induction es arbitrary: s t)
  case Nil
  then show ?case by (simp add: run_def)
next
  case (Cons e es)
  show ?case
  proof (cases "concerns i e")
    case True
    from Cons.IH[OF step_own[OF Cons.prems True]] True show ?thesis
      by (simp add: run_def)
  next
    case False
    from Cons.IH[OF step_foreign[OF Cons.prems False]] False show ?thesis
      by (simp add: run_def)
  qed
qed

lemma idle_refs_ok: "idle s \<Longrightarrow> refs_ok s"
  by (simp add: idle_def refs_ok_def list_all_length)

lemma same_handle_refl: "same_handle a a"
  by (cases "Statement a") (simp_all add: same_handle_def same_statement_def)

lemma related_refl: "refs_ok s \<Longrightarrow> related i s s"
  by (simp add: related_def same_handle_refl)

subsection \<open>Isolation\<close>

text \<open>
  C9, as stated, has every span carry its own operation's parent linkage under any
  interleaving. When the handlers of two requests have both assigned \<open>H\<close> before the hook
  of the first request's query runs, the span of that query is linked to the trace of the
  second request (trace id \<open>b2\<close>, span id \<open>0c\<close>); run without the other request's
  events it is linked to its own (\<open>1a2b\<close>, \<open>00ff\<close>).
\<close>

theorem parent_linkage_follows_shared_carrier:
  "span_linkage 0 (run interleaved two_requests) \<noteq>
     span_linkage 0 (run (filter (concerns 0) interleaved) two_requests)
   \<and> span_linkage 0 (run interleaved two_requests) = Some (178, Some 12)
   \<and> span_linkage 0 (run (filter (concerns 0) interleaved) two_requests) = Some (6699, Some 255)"
  by code_simp

text \<open>
  C9, amended. For any number of operations that start without a span, and any
  interleaving of their events, the span of each operation carries the operation name,
  the annotations (statement, table, error), the times and the finished flag it carries
  when the events of all other operations are left out: nothing of another operation
  reaches it. (Its parent linkage comes from the process-wide \<open>H\<close> as it is when the
  before-hook runs, and is not part of this statement.)
\<close>

theorem interleaving_keeps_annotations_apart:
  assumes "idle s"
  shows "span_report i (run es s) = span_report i (run (filter (concerns i) es) s)"
proof -
  have r: "related i (run es s) (run (filter (concerns i) es) s)"
    by (rule run_related[OF related_refl[OF idle_refs_ok[OF assms]]])
  show ?thesis
  proof (cases "i < length (sys_ops (run es s))")
    case True
    with r show ?thesis by (simp add: related_def)
  next
    case False
    with r show ?thesis by (simp add: related_def span_report_def)
  qed
qed

text \<open>
  The two requests: each span has the annotations of its own statement; the failed create
  has the error, the query has none.
\<close>

theorem interleaving_keeps_annotations_apart_witness:
  "idle two_requests
   \<and> span_report 0 (run interleaved two_requests) =
       Some (''query'',
             [StringField ''sql'' ''SELECT * FROM users WHERE name = ? [xiaoming]'',
              StringField ''table'' ''users'',
              StringField ''query'' ''SELECT * FROM users WHERE name = ?'',
              StringField ''bindings'' ''SELECT * FROM users WHERE name = ?''],
             100, Some 130, True)
   \<and> span_report 1 (run interleaved two_requests) =
       Some (''create'',
             [ErrorField ''duplicate key'',
              StringField ''sql'' ''INSERT INTO orders (id) VALUES (?) [int]'',
              StringField ''table'' ''orders'',
              StringField ''query'' ''INSERT INTO orders (id) VALUES (?)'',
              StringField ''bindings'' ''INSERT INTO orders (id) VALUES (?)''],
             100, Some 100, True)"
proof -
  have a: "idle two_requests"
    by code_simp
  have b: "span_report 0 (run (filter (concerns 0) interleaved) two_requests) =
       Some (''query'',
             [StringField ''sql'' ''SELECT * FROM users WHERE name = ? [xiaoming]'',
              StringField ''table'' ''users'',
              StringField ''query'' ''SELECT * FROM users WHERE name = ?'',
              StringField ''bindings'' ''SELECT * FROM users WHERE name = ?''],
             100, Some 130, True)"
    by code_simp
  have c: "span_report 1 (run (filter (concerns 1) interleaved) two_requests) =
       Some (''create'',
             [ErrorField ''duplicate key'',
              StringField ''sql'' ''INSERT INTO orders (id) VALUES (?) [int]'',
              StringField ''table'' ''orders'',
              StringField ''query'' ''INSERT INTO orders (id) VALUES (?)'',
              StringField ''bindings'' ''INSERT INTO orders (id) VALUES (?)''],
             100, Some 100, True)"
    by code_simp
  show ?thesis
    using interleaving_keeps_annotations_apart[OF a, of 0 interleaved]
      interleaving_keeps_annotations_apart[OF a, of 1 interleaved] a b c
    by simp
qed

end
